theory Spec2Isabelle
  imports Complex_Main "HOL-Library.Word"
begin

section \<open>Evaluation of a U-Net segmentation model: the data and the numeric steps\<close>

text \<open>
  The script \<^verbatim>\<open>NT_DATA/evalutate_unet.py\<close> is one linear batch run: load and coerce the
  ground-truth masks, predict, pick a threshold from the precision-recall curve, binarize,
  post-process every image, and score. Its own code is modelled below step by step, under
  the names the script uses. The routines it calls from numpy, scikit-learn and OpenCV are
  not part of the script. Elementwise numpy operations are written out. The precision-recall
  curve, the closing and the labelling enter the script's own steps as parameters, and what
  the script relies on from them is stated as a predicate; the curve and the closing are
  also modelled from the spec, so that the predicates can be met on concrete batches. The
  confusion matrix is modelled as a table of counts.

  Floating-point numbers are modelled by the reals they denote, together with the special
  values that numpy produces instead of raising. Arrays are lists: a flattened array is a
  list of elements and a two-dimensional image is a list of rows.
\<close>

subsection \<open>Errors and array elements\<close>

datatype error =
    ValueError
  | IndexError
  | AssertionError string

text \<open>A float64 as numpy holds it: a number, an infinity or not-a-number.\<close>

datatype npfloat = Finite real | PosInf | NegInf | NaN

datatype dtype = Bool | UInt8 | Int64 | Float32 | Float64

text \<open>An array as far as the validation step looks at it: its element type and its elements.\<close>

record 'a ndarray =
  dtype :: dtype
  elems :: "'a list"

type_synonym image = "8 word list list"

subsection \<open>Loading and validating the masks (lines 18 to 23)\<close>

text \<open>\<^verbatim>\<open>x > c\<close> on one element: every comparison with not-a-number is false.\<close>

fun np_gt :: "npfloat \<Rightarrow> real \<Rightarrow> bool" where
  "np_gt (Finite x) c = (x > c)"
| "np_gt PosInf c = True"
| "np_gt NegInf c = False"
| "np_gt NaN c = False"

definition greater :: "npfloat ndarray \<Rightarrow> real \<Rightarrow> bool ndarray" where
  "greater a c = \<lparr>dtype = Bool, elems = map (\<lambda>v. np_gt v c) (elems a)\<rparr>"

definition astype_uint8 :: "bool ndarray \<Rightarrow> 8 word ndarray" where
  "astype_uint8 a = \<lparr>dtype = UInt8, elems = map (\<lambda>b. if b then 1 else 0) (elems a)\<rparr>"

text \<open>\<^verbatim>\<open>Y_test = (Y_test > 0.5).astype(np.uint8)\<close>\<close>

definition coerce_masks :: "npfloat ndarray \<Rightarrow> 8 word ndarray" where
  "coerce_masks Y_test = astype_uint8 (greater Y_test (1 / 2))"

text \<open>
  The two assertions. \<^verbatim>\<open>max()\<close> of an array without elements raises a ValueError before
  either assertion is decided.
\<close>

definition validate_masks :: "8 word ndarray \<Rightarrow> error + unit" where
  "validate_masks Y_test =
     (if elems Y_test = [] then Inl ValueError
      else if \<not> (Max (set (elems Y_test)) \<le> 1 \<and> Min (set (elems Y_test)) \<ge> 0)
        then Inl (AssertionError ''Masks must be binary (0-1)'')
      else if dtype Y_test \<noteq> UInt8
        then Inl (AssertionError ''Masks should be uint8 type'')
      else Inr ())"

subsection \<open>Threshold selection (lines 34 to 39)\<close>

text \<open>
  An elementwise operation on two one-dimensional arrays: equal lengths pair up, a
  one-element array is broadcast, any other pair of lengths raises.
\<close>

definition broadcast2 :: "('a \<Rightarrow> 'b \<Rightarrow> 'c) \<Rightarrow> 'a list \<Rightarrow> 'b list \<Rightarrow> error + 'c list" where
  "broadcast2 f xs ys =
     (if length xs = length ys then Inr (map2 f xs ys)
      else if length xs = 1 then Inr (map (f (hd xs)) ys)
      else if length ys = 1 then Inr (map (\<lambda>x. f x (hd ys)) xs)
      else Inl ValueError)"

definition f1 :: "real \<Rightarrow> real \<Rightarrow> real" where
  "f1 p r = 2 * (p * r) / (p + r + 1 / 1000000)"

text \<open>\<^verbatim>\<open>np.argmax\<close>: the first index that holds the maximum; an empty array raises.\<close>

fun argmax :: "real list \<Rightarrow> nat" where
  "argmax [] = 0"
| "argmax [x] = 0"
| "argmax (x # y # ys) = (let j = argmax (y # ys) in if (y # ys) ! j \<le> x then 0 else Suc j)"

definition np_argmax :: "real list \<Rightarrow> error + nat" where
  "np_argmax xs = (if xs = [] then Inl ValueError else Inr (argmax xs))"

definition optimal_threshold :: "real list \<Rightarrow> real list \<Rightarrow> real list \<Rightarrow> error + real" where
  "optimal_threshold precisions recalls thresholds =
     (case broadcast2 f1 precisions recalls of
        Inl e \<Rightarrow> Inl e
      | Inr scores \<Rightarrow>
          (case np_argmax scores of
             Inl e \<Rightarrow> Inl e
           | Inr optimal_idx \<Rightarrow>
               if optimal_idx < length thresholds then Inr (thresholds ! optimal_idx)
               else Inl IndexError))"

text \<open>
  What the script relies on from \<^verbatim>\<open>precision_recall_curve\<close>, for a batch with at least one
  pixel: one precision and one recall per threshold, followed by the closing pair
  (1, 0); both are fractions; every threshold is one of the predicted probabilities.
\<close>

definition curve_contract :: "real list \<Rightarrow> real list \<Rightarrow> real list \<Rightarrow> real list \<Rightarrow> bool" where
  "curve_contract raw_preds precisions recalls thresholds \<longleftrightarrow>
     thresholds \<noteq> [] \<and>
     length precisions = Suc (length thresholds) \<and>
     length recalls = Suc (length thresholds) \<and>
     list_all (\<lambda>p. 0 \<le> p \<and> p \<le> 1) precisions \<and>
     list_all (\<lambda>r. 0 \<le> r \<and> r \<le> 1) recalls \<and>
     last precisions = 1 \<and> last recalls = 0 \<and>
     list_all (\<lambda>t. t \<in> set raw_preds) thresholds"

text \<open>
  Modelled from the spec: \<^verbatim>\<open>precision_recall_curve\<close> belongs to scikit-learn, not to the
  script. The spec describes a sweep over the thresholds given by the sorted distinct
  probabilities; at a threshold the pixels whose probability reaches it count as predicted
  positive. The closing pair (1, 0) has no threshold. Without any positive label the recall
  is 1 throughout.
\<close>

definition tps :: "8 word list \<Rightarrow> real list \<Rightarrow> real \<Rightarrow> nat" where
  "tps y_true y_score t = length (filter (\<lambda>(y, s). y = 1 \<and> t \<le> s) (zip y_true y_score))"

definition fps :: "8 word list \<Rightarrow> real list \<Rightarrow> real \<Rightarrow> nat" where
  "fps y_true y_score t = length (filter (\<lambda>(y, s). y \<noteq> 1 \<and> t \<le> s) (zip y_true y_score))"

definition precision_recall_curve ::
  "8 word list \<Rightarrow> real list \<Rightarrow> error + real list \<times> real list \<times> real list" where
  "precision_recall_curve y_true y_score =
     (if length y_true \<noteq> length y_score then Inl ValueError
      else
        let thresholds = sort (remdups y_score);
            total = length (filter (\<lambda>y. y = 1) y_true);
            precisions = map (\<lambda>t. real (tps y_true y_score t)
                                   / real (tps y_true y_score t + fps y_true y_score t)) thresholds;
            recalls = map (\<lambda>t. if total = 0 then 1
                                 else real (tps y_true y_score t) / real total) thresholds
        in Inr (precisions @ [1], recalls @ [0], thresholds))"


subsection \<open>Binarization (line 42)\<close>

text \<open>\<^verbatim>\<open>preds = (raw_preds > optimal_threshold).astype(np.uint8)\<close>, element by element.\<close>

primrec preds :: "real list \<Rightarrow> real \<Rightarrow> 8 word list" where
  "preds [] t = []"
| "preds (p # ps) t = (if p > t then 1 else 0) # preds ps t"

definition positives :: "8 word list \<Rightarrow> nat" where
  "positives xs = length (filter (\<lambda>v. v = 1) xs)"

subsection \<open>Post-processing of one image (lines 48 to 64)\<close>

text \<open>
  \<^verbatim>\<open>connectedComponentsWithStats\<close> returns the number of labels, the label of every pixel
  and one row of statistics per label. The script reads the last column of that matrix
  only, the area in pixels, so the model keeps this column: one area per label.
\<close>

type_synonym components = "int \<times> int list list \<times> int list"

definition zeros_like :: "image \<Rightarrow> image" where
  "zeros_like m = map (map (\<lambda>_. 0)) m"

text \<open>
  \<^verbatim>\<open>processed[labels == l] = 1\<close>: a boolean index of another shape than the array raises.
\<close>

definition assign_where :: "int list list \<Rightarrow> int \<Rightarrow> image \<Rightarrow> error + image" where
  "assign_where labels l processed =
     (if map length labels = map length processed
      then Inr (map2 (\<lambda>ls ps. map2 (\<lambda>x p. if x = l then 1 else p) ls ps) labels processed)
      else Inl IndexError)"

text \<open>One round of the loop over \<^verbatim>\<open>range(n_labels-1)\<close>.\<close>

definition filter_step :: "int list \<Rightarrow> int list list \<Rightarrow> error + image \<Rightarrow> nat \<Rightarrow> error + image" where
  "filter_step sizes labels acc i =
     (case acc of
        Inl e \<Rightarrow> Inl e
      | Inr processed \<Rightarrow>
          if \<not> i < length sizes then Inl IndexError
          else if sizes ! i \<ge> 100 then assign_where labels (int i + 1) processed
          else Inr processed)"

text \<open>
  The body of the loop over the images. \<^verbatim>\<open>sizes = stats[1:, -1]\<close> drops the row of the
  background label.
\<close>

definition postprocess :: "(image \<Rightarrow> image) \<Rightarrow> (image \<Rightarrow> components) \<Rightarrow> image \<Rightarrow> error + image" where
  "postprocess morph_close connected_components mask_squeezed =
     (let processed = morph_close mask_squeezed;
          (n_labels, labels, stats) = connected_components processed
      in if n_labels > 1
         then let sizes = tl stats
              in foldl (filter_step sizes labels) (Inr (zeros_like processed))
                   [0 ..< nat (n_labels - 1)]
         else Inr processed)"

text \<open>The number of pixels that carry label \<open>l\<close>.\<close>

definition label_count :: "int list list \<Rightarrow> int \<Rightarrow> nat" where
  "label_count labels l = length (filter (\<lambda>x. x = l) (concat labels))"

text \<open>
  What the script relies on from the labelling of an image: labels have the shape of the
  image and are the numbers below \<open>n_labels\<close>, label 0 is exactly the background, there is
  one area per label, and the area of a label is the number of its pixels. A component is
  the set of pixels of one label; which pixels count as adjacent plays no part below.
\<close>

definition labelling_contract :: "image \<Rightarrow> components \<Rightarrow> bool" where
  "labelling_contract img c \<longleftrightarrow>
     (case c of (n_labels, labels, stats) \<Rightarrow>
        1 \<le> n_labels \<and>
        map length labels = map length img \<and>
        list_all (list_all (\<lambda>l. 0 \<le> l \<and> l < n_labels)) labels \<and>
        list_all2 (list_all2 (\<lambda>l v. l = 0 \<longleftrightarrow> v = 0)) labels img \<and>
        int (length stats) = n_labels \<and>
        list_all (\<lambda>l. stats ! l = int (label_count labels (int l))) [0 ..< length stats])"

definition binary_image :: "image \<Rightarrow> bool" where
  "binary_image img \<longleftrightarrow> list_all (list_all (\<lambda>v. v = 0 \<or> v = 1)) img"

text \<open>
  The value that the loop has written for a pixel of label \<open>l\<close> after \<open>k\<close> rounds.
\<close>

definition kept :: "int list \<Rightarrow> nat \<Rightarrow> int \<Rightarrow> 8 word" where
  "kept sizes k l = (if 1 \<le> l \<and> l \<le> int k \<and> 100 \<le> sizes ! nat (l - 1) then 1 else 0)"

text \<open>Post-processing applied to its own result.\<close>

definition postprocess_twice :: "(image \<Rightarrow> image) \<Rightarrow> (image \<Rightarrow> components) \<Rightarrow> image \<Rightarrow> error + image" where
  "postprocess_twice morph_close connected_components img =
     (case postprocess morph_close connected_components img of
        Inl e \<Rightarrow> Inl e
      | Inr once \<Rightarrow> postprocess morph_close connected_components once)"

text \<open>
  Modelled from the spec: the closing that \<^verbatim>\<open>cv2.morphologyEx\<close> computes is not part of the
  script. The spec describes it as a dilation followed by an erosion with a 3x3 kernel of
  ones: every pixel becomes the maximum, then the minimum, of its neighbourhood. Positions
  outside the image take no part, as with the default border of OpenCV.
\<close>

definition window :: "'a list \<Rightarrow> nat \<Rightarrow> 'a list" where
  "window xs i = take (i + 2 - (i - 1)) (drop (i - 1) xs)"

definition neighbourhood :: "image \<Rightarrow> nat \<Rightarrow> nat \<Rightarrow> 8 word list" where
  "neighbourhood img r c = concat (map (\<lambda>row. window row c) (window img r))"

definition morph3 :: "(8 word \<Rightarrow> 8 word \<Rightarrow> 8 word) \<Rightarrow> image \<Rightarrow> image" where
  "morph3 f img =
     map (\<lambda>r. map (\<lambda>c. fold f (neighbourhood img r c) (img ! r ! c)) [0 ..< length (img ! r)])
       [0 ..< length img]"

definition closing :: "image \<Rightarrow> image" where
  "closing img = morph3 min (morph3 max img)"

text \<open>
  The labelling of an image whose foreground is one connected region or empty: every
  foreground pixel has label 1. It serves as the labelling routine in the examples.
\<close>

definition label_foreground :: "image \<Rightarrow> components" where
  "label_foreground img =
     (let labels = map (map (\<lambda>v. if v = 0 then 0 else (1::int))) img
      in if list_all (list_all (\<lambda>v. v = 0)) img
         then (1, labels, [int (label_count labels 0)])
         else (2, labels, [int (label_count labels 0), int (label_count labels 1)]))"

subsection \<open>Scores (lines 70 to 94)\<close>

text \<open>\<^verbatim>\<open>np.sum\<close> of a uint8 array adds in 64 bits, which an array in memory cannot overflow.\<close>

definition np_sum :: "8 word list \<Rightarrow> nat" where
  "np_sum xs = sum_list (map unat xs)"

definition dice_score :: "8 word list \<Rightarrow> 8 word list \<Rightarrow> error + real" where
  "dice_score y_true y_pred =
     (case broadcast2 (\<lambda>a b. a * b) y_true y_pred of
        Inl e \<Rightarrow> Inl e
      | Inr products \<Rightarrow>
          (let intersection = np_sum products
           in Inr ((2 * real intersection)
                   / (real (np_sum y_true) + real (np_sum y_pred) + 1 / 1000000))))"

definition binary :: "8 word list \<Rightarrow> bool" where
  "binary xs \<longleftrightarrow> list_all (\<lambda>v. v = 0 \<or> v = 1) xs"

text \<open>The number of positions where both arrays hold 1.\<close>

definition intersection_count :: "8 word list \<Rightarrow> 8 word list \<Rightarrow> nat" where
  "intersection_count y_true y_pred =
     length (filter (\<lambda>(a, b). a = 1 \<and> b = 1) (zip y_true y_pred))"

text \<open>
  Modelled from the spec: \<^verbatim>\<open>confusion_matrix\<close> belongs to scikit-learn, not to the script.
  The spec describes the counts of true and false positives and negatives over the
  flattened batch. The routine is called without a list of labels, so its labels are the
  sorted distinct values that occur in either array, and entry (i, j) counts the positions
  whose true value is label i and whose predicted value is label j. Arrays of different
  lengths raise.
\<close>

definition unique_labels :: "8 word list \<Rightarrow> 8 word list \<Rightarrow> 8 word list" where
  "unique_labels y_true y_pred = sort (remdups (y_true @ y_pred))"

definition pair_count :: "8 word list \<Rightarrow> 8 word list \<Rightarrow> 8 word \<Rightarrow> 8 word \<Rightarrow> nat" where
  "pair_count y_true y_pred a b = length (filter (\<lambda>p. p = (a, b)) (zip y_true y_pred))"

definition confusion_matrix :: "8 word list \<Rightarrow> 8 word list \<Rightarrow> error + nat list list" where
  "confusion_matrix y_true y_pred =
     (if length y_true \<noteq> length y_pred then Inl ValueError
      else let labels = unique_labels y_true y_pred
           in Inr (map (\<lambda>a. map (\<lambda>b. pair_count y_true y_pred a b) labels) labels))"

text \<open>\<^verbatim>\<open>tn, fp, fn, tp = confusion_matrix(y_true, y_pred).ravel()\<close>: exactly four values unpack.\<close>

definition confusion_counts :: "8 word list \<Rightarrow> 8 word list \<Rightarrow> error + nat \<times> nat \<times> nat \<times> nat" where
  "confusion_counts y_true y_pred =
     (case confusion_matrix y_true y_pred of
        Inl e \<Rightarrow> Inl e
      | Inr m \<Rightarrow>
          (case concat m of
             [tn, fp, fn, tp] \<Rightarrow> Inr (tn, fp, fn, tp)
           | _ \<Rightarrow> Inl ValueError))"






section \<open>Binarization\<close>

lemma length_preds: "length (preds ps t) = length ps"
  by (induction ps) simp_all

lemma nth_preds: "i < length ps \<Longrightarrow> preds ps t ! i = (if ps ! i > t then 1 else 0)"
proof (induction ps arbitrary: i)
  case Nil
  then show ?case by simp
next
  case (Cons p ps)
  then show ?case by (cases i) simp_all
qed

text \<open>
  Claim C4. Binarization is elementwise with a strict comparison: the predicted label at
  every position is 1 when the probability there exceeds the threshold and 0 otherwise, and
  a probability of exactly 0.5 under the threshold 0.5 gives the label 0.
\<close>

theorem binarization_strict:
  "length (preds ps t) = length ps \<and>
   (\<forall>i < length ps. preds ps t ! i = (if ps ! i > t then 1 else 0)) \<and>
   preds [1 / 2] (1 / 2) = [0]"
  by (simp add: length_preds nth_preds)

theorem binarization_strict_witness:
  "preds [1 / 5, 1 / 2, 9 / 10] (1 / 2) ! 1 = 0 \<and> preds [1 / 5, 1 / 2, 9 / 10] (1 / 2) ! 2 = 1"
  using binarization_strict [of "[1 / 5, 1 / 2, 9 / 10]" "1 / 2"] by simp

text \<open>
  Claim C5. Raising the threshold never increases the number of positive predictions.
\<close>

theorem binarization_monotonic:
  "t1 \<le> t2 \<Longrightarrow> positives (preds ps t2) \<le> positives (preds ps t1)"
  unfolding positives_def by (induction ps) auto

theorem binarization_monotonic_witness:
  "(3 / 10 :: real) \<le> 6 / 10 \<and>
   positives (preds [1 / 5, 1 / 2, 9 / 10] (6 / 10)) \<le> positives (preds [1 / 5, 1 / 2, 9 / 10] (3 / 10))"
  using binarization_monotonic [of "3 / 10" "6 / 10" "[1 / 5, 1 / 2, 9 / 10]"] by simp

section \<open>Mask validation\<close>

lemma elems_coerce: "elems (coerce_masks Y) = map (\<lambda>v. if np_gt v (1/2) then 1 else 0) (elems Y)"
  by (simp add: coerce_masks_def astype_uint8_def greater_def comp_def)

lemma dtype_coerce: "dtype (coerce_masks Y) = UInt8"
  by (simp add: coerce_masks_def astype_uint8_def)

lemma coerce_binary: "v \<in> set (elems (coerce_masks Y)) \<Longrightarrow> v = 0 \<or> v = 1"
  by (auto simp: elems_coerce)

text \<open>
  Claim C9. After the coercion of line 18 neither assertion on the masks can fail: the
  values are 0 or 1 and the element type is uint8 for every loaded array, so validation
  never ends in an assertion error. It succeeds whenever the array has an element, and an
  array without elements stops at the maximum with a ValueError.
\<close>

theorem mask_assertions_hold:
  "validate_masks (coerce_masks Y) = (if elems Y = [] then Inl ValueError else Inr ()) \<and>
   (\<forall>msg. validate_masks (coerce_masks Y) \<noteq> Inl (AssertionError msg)) \<and>
   dtype (coerce_masks Y) = UInt8 \<and>
   list_all (\<lambda>v. v = 0 \<or> v = 1) (elems (coerce_masks Y))"
proof -
  have b: "list_all (\<lambda>v. v = 0 \<or> v = 1) (elems (coerce_masks Y))"
    by (auto simp: elems_coerce list_all_iff)
  have d: "dtype (coerce_masks Y) = UInt8" by (rule dtype_coerce)
  have v: "validate_masks (coerce_masks Y) = (if elems Y = [] then Inl ValueError else Inr ())"
  proof (cases "elems Y = []")
    case True
    then show ?thesis by (simp add: validate_masks_def elems_coerce)
  next
    case False
    then have ne: "elems (coerce_masks Y) \<noteq> []" by (simp add: elems_coerce)
    have "Max (set (elems (coerce_masks Y))) \<in> set (elems (coerce_masks Y))"
      using ne by (intro Max_in) simp_all
    then have mx: "Max (set (elems (coerce_masks Y))) \<le> 1"
      using coerce_binary by fastforce
    show ?thesis using False ne mx d by (simp add: validate_masks_def)
  qed
  show ?thesis using b d v by (auto split: if_splits)
qed

section \<open>Threshold selection\<close>

lemma argmax_less: "xs \<noteq> [] \<Longrightarrow> argmax xs < length xs"
  by (induction xs rule: argmax.induct) (auto simp: Let_def)


lemma argmax_first: "j < argmax xs \<Longrightarrow> xs ! j < xs ! argmax xs"
proof (induction xs arbitrary: j rule: argmax.induct)
  case 1 then show ?case by simp
next
  case (2 x) then show ?case by simp
next
  case (3 x y ys)
  show ?case
  proof (cases "(y # ys) ! argmax (y # ys) \<le> x")
    case True
    then show ?thesis using 3(2) by (simp add: Let_def)
  next
    case False
    then have a: "argmax (x # y # ys) = Suc (argmax (y # ys))" by (simp add: Let_def)
    show ?thesis
    proof (cases j)
      case 0
      then show ?thesis using False a by simp
    next
      case (Suc k)
      then have "k < argmax (y # ys)" using 3(2) a by simp
      then have "(y # ys) ! k < (y # ys) ! argmax (y # ys)" using 3(1) by simp
      then show ?thesis using Suc a by simp
    qed
  qed
qed

lemma tps_le_total:
  "length y_true = length y_score \<Longrightarrow>
   tps y_true y_score t \<le> length (filter (\<lambda>y. y = 1) y_true)"
  unfolding tps_def
  by (induction y_true y_score rule: list_induct2) auto

lemma fraction_range: "real a / (real a + real b) \<le> 1"
  by (cases "a + b = 0") (simp_all add: divide_le_eq add_nonneg_eq_0_iff)

lemma fraction_range_le: "a \<le> n \<Longrightarrow> real a / real n \<le> 1"
  by (cases "n = 0") (simp_all add: divide_le_eq)

text \<open>
  The sweep as the spec describes it meets the contract on every batch with at least one
  pixel, so the hypotheses of the theorem below hold for each such batch.
\<close>

lemma curve_meets_contract:
  assumes "raw_preds \<noteq> []" and "length y_true = length raw_preds"
  shows "\<exists>precisions recalls thresholds.
           precision_recall_curve y_true raw_preds = Inr (precisions, recalls, thresholds) \<and>
           curve_contract raw_preds precisions recalls thresholds"
proof -
  have "set (sort (remdups raw_preds)) \<noteq> {}" using assms(1) by simp
  then have ne: "sort (remdups raw_preds) \<noteq> []" by (simp del: set_sort set_remdups)
  show ?thesis
    using assms(2) ne tps_le_total [OF assms(2)]
    by (simp add: precision_recall_curve_def curve_contract_def Let_def list_all_iff
        fraction_range fraction_range_le)
qed

lemma f1_nonneg: "0 \<le> p \<Longrightarrow> 0 \<le> r \<Longrightarrow> 0 \<le> f1 p r"
  by (simp add: f1_def)

lemma f1_closing_pair: "f1 p 0 = 0"
  by (simp add: f1_def)

text \<open>
  The closing pair scores 0 and no pair scores less, so the first maximal index is never
  the index of the closing pair: it names a threshold.
\<close>

lemma argmax_names_threshold:
  assumes curve: "curve_contract raw_preds precisions recalls thresholds"
  shows "argmax (map2 f1 precisions recalls) < length thresholds \<and>
         optimal_threshold precisions recalls thresholds =
           Inr (thresholds ! argmax (map2 f1 precisions recalls))"
proof -
  let ?n = "length thresholds"
  let ?scores = "map2 f1 precisions recalls"
  let ?i = "argmax ?scores"
  from curve have ne: "thresholds \<noteq> []"
    and lp: "length precisions = Suc ?n" and lr: "length recalls = Suc ?n"
    and pr: "list_all (\<lambda>p. 0 \<le> p \<and> p \<le> 1) precisions"
    and rr: "list_all (\<lambda>r. 0 \<le> r \<and> r \<le> 1) recalls"
    and last_r: "last recalls = 0"
    by (simp_all add: curve_contract_def)
  have ls: "length ?scores = Suc ?n" using lp lr by simp
  have "recalls \<noteq> []" using lr by auto
  then have "recalls ! ?n = 0" using last_r lr by (simp add: last_conv_nth)
  then have last_score: "?scores ! ?n = 0" using lp lr by (simp add: f1_closing_pair)
  have first_score: "0 \<le> ?scores ! 0"
    using pr rr lp lr by (simp add: f1_nonneg list_all_length)
  have i_le: "?i < Suc ?n" using argmax_less [of ?scores] ls by fastforce
  have i_lt: "?i < ?n"
  proof (rule ccontr)
    assume "\<not> ?i < ?n"
    then have eq: "?i = ?n" using i_le by simp
    then have "0 < ?i" using ne by simp
    then have "?scores ! 0 < ?scores ! ?i" by (rule argmax_first)
    then show False using eq last_score first_score by simp
  qed
  moreover have "optimal_threshold precisions recalls thresholds = Inr (thresholds ! ?i)"
    using lp lr ls i_lt
    by (auto simp: optimal_threshold_def broadcast2_def np_argmax_def)
  ultimately show ?thesis by simp
qed

text \<open>
  With the sweep as the spec describes it, every batch with at least one pixel and
  probabilities in [0,1] gets one of the thresholds of its sweep.
\<close>

lemma threshold_on_every_batch:
  assumes "raw_preds \<noteq> []" and "length y_true = length raw_preds"
  shows "\<exists>precisions recalls thresholds t.
           precision_recall_curve y_true raw_preds = Inr (precisions, recalls, thresholds) \<and>
           optimal_threshold precisions recalls thresholds = Inr t \<and>
           t \<in> set thresholds"
proof -
  from curve_meets_contract [OF assms] obtain precisions recalls thresholds
    where c: "precision_recall_curve y_true raw_preds = Inr (precisions, recalls, thresholds)"
      and k: "curve_contract raw_preds precisions recalls thresholds"
    by blast
  let ?i = "argmax (map2 f1 precisions recalls)"
  from argmax_names_threshold [OF k]
  have "optimal_threshold precisions recalls thresholds = Inr (thresholds ! ?i)"
    and "thresholds ! ?i \<in> set thresholds"
    by simp_all
  with c show ?thesis by blast
qed



section \<open>Post-processing\<close>

lemma map_const_same_shape:
  "map length a = map length b \<Longrightarrow> map (map (\<lambda>_. c)) a = map (map (\<lambda>_. c)) b"
proof (induction a arbitrary: b)
  case Nil
  then show ?case by simp
next
  case (Cons x a)
  then obtain y b' where b: "b = y # b'" by (cases b) auto
  with Cons.prems have "length x = length y" and "map length a = map length b'" by simp_all
  then show ?case using Cons.IH b by (simp add: map_replicate_const)
qed

lemma map2_map_same: "map2 f xs (map g xs) = map (\<lambda>x. f x (g x)) xs"
  by (induction xs) simp_all

lemma assign_where_kept:
  "assign_where labels l (map (map g) labels) =
     Inr (map (map (\<lambda>x. if x = l then 1 else g x)) labels)"
  by (simp add: assign_where_def comp_def map2_map_same)

lemma filter_step_kept:
  assumes "k < length sizes"
  shows "filter_step sizes labels (Inr (map (map (kept sizes k)) labels)) k =
           Inr (map (map (kept sizes (Suc k))) labels)"
proof -
  have "(\<lambda>x. if x = int k + 1 then 1 else kept sizes k x) = kept sizes (Suc k)"
    if "100 \<le> sizes ! k"
    using that by (auto simp: kept_def fun_eq_iff nat_add_distrib)
  moreover have "kept sizes k = kept sizes (Suc k)" if "\<not> 100 \<le> sizes ! k"
  proof
    fix l show "kept sizes k l = kept sizes (Suc k) l"
    proof (cases "l = int k + 1")
      case True
      then have "nat (l - 1) = k" by simp
      then show ?thesis using that True by (simp add: kept_def)
    next
      case False
      then show ?thesis by (auto simp: kept_def)
    qed
  qed
  ultimately show ?thesis using assms by (simp add: filter_step_def assign_where_kept)
qed

lemma size_filter_loop:
  assumes "k \<le> length sizes" and "map length labels = map length processed"
  shows "foldl (filter_step sizes labels) (Inr (zeros_like processed)) [0 ..< k] =
           Inr (map (map (kept sizes k)) labels)"
  using assms(1)
proof (induction k)
  case 0
  have "kept sizes 0 = (\<lambda>_. 0)" by (auto simp: kept_def fun_eq_iff)
  then show ?case using map_const_same_shape [OF assms(2), of "0::8 word"] by (simp add: zeros_like_def)
next
  case (Suc k)
  then show ?case by (simp add: filter_step_kept)
qed

lemma size_filter_loop_small:
  assumes "k \<le> length sizes" and "list_all (\<lambda>a. a < 100) sizes"
  shows "foldl (filter_step sizes labels) (Inr z) [0 ..< k] = Inr z"
  using assms(1)
proof (induction k)
  case 0
  then show ?case by simp
next
  case (Suc k)
  then have "sizes ! k < 100" using assms(2) by (simp add: list_all_length)
  then show ?case using Suc by (simp add: filter_step_def)
qed


lemma map_map_cong_all:
  "list_all (list_all (\<lambda>x. f x = g x)) xss \<Longrightarrow> map (map f) xss = map (map g) xss"
  by (induction xss) (auto simp: list_all_iff)

lemma list_all_mono2:
  "list_all (list_all P) xss \<Longrightarrow> (\<And>x. P x \<Longrightarrow> Q x) \<Longrightarrow> list_all (list_all Q) xss"
  by (auto simp: list_all_iff)

lemma map_map_rel:
  "list_all2 (list_all2 R) xss yss \<Longrightarrow> list_all (list_all P) xss \<Longrightarrow>
   (\<And>x y. R x y \<Longrightarrow> P x \<Longrightarrow> f x = g y) \<Longrightarrow> map (map f) xss = map (map g) yss"
proof (induction xss yss rule: list_all2_induct)
  case Nil
  then show ?case by simp
next
  case (Cons xs xss ys yss)
  have "map f xs = map g ys" using Cons.hyps(1) Cons.prems(1) Cons.prems(2)
  proof (induction xs ys rule: list_all2_induct)
    case Nil
    then show ?case by simp
  next
    case (Cons a as b bs)
    then show ?case by simp
  qed
  then show ?case using Cons by simp
qed

lemma postprocess_result:
  assumes cc: "connected_components (morph_close img) = (n_labels, labels, stats)"
      and contract: "labelling_contract (morph_close img) (n_labels, labels, stats)"
  shows "postprocess morph_close connected_components img =
           Inr (map (map (\<lambda>l. if 1 \<le> l \<and> 100 \<le> label_count labels l then 1 else 0)) labels)"
proof -
  let ?proc = "morph_close img"
  let ?keep = "\<lambda>l. if 1 \<le> l \<and> 100 \<le> label_count labels l then (1::8 word) else 0"
  from contract have n1: "1 \<le> n_labels"
    and shape: "map length labels = map length ?proc"
    and range: "list_all (list_all (\<lambda>l. 0 \<le> l \<and> l < n_labels)) labels"
    and bg: "list_all2 (list_all2 (\<lambda>l v. l = 0 \<longleftrightarrow> v = 0)) labels ?proc"
    and len: "int (length stats) = n_labels"
    and area: "list_all (\<lambda>l. stats ! l = int (label_count labels (int l))) [0 ..< length stats]"
    by (simp_all add: labelling_contract_def)
  show ?thesis
  proof (cases "n_labels > 1")
    case True
    let ?sizes = "tl stats" and ?k = "nat (n_labels - 1)"
    have k: "?k = length ?sizes" using len by simp
    have same: "kept ?sizes ?k l = ?keep l" if l: "0 \<le> l \<and> l < n_labels" for l
    proof (cases "1 \<le> l")
      case False
      then show ?thesis by (simp add: kept_def)
    next
      case True
      then have "nat (l - 1) < length ?sizes" and nl: "nat l < length stats"
        using l len by simp_all
      then have "?sizes ! nat (l - 1) = stats ! nat l"
        using True by (simp add: nth_tl Suc_nat_eq_nat_zadd1)
      also have "\<dots> = int (label_count labels l)"
        using area nl True by (simp add: list_all_iff)
      finally show ?thesis using True l by (simp add: kept_def)
    qed
    have "postprocess morph_close connected_components img =
            foldl (filter_step ?sizes labels) (Inr (zeros_like ?proc)) [0 ..< ?k]"
      using True cc by (simp add: postprocess_def)
    also have "\<dots> = Inr (map (map (kept ?sizes ?k)) labels)"
      using k shape by (simp add: size_filter_loop)
    also have "map (map (kept ?sizes ?k)) labels = map (map ?keep) labels"
      by (rule map_map_cong_all) (rule list_all_mono2 [OF range], simp add: same)
    finally show ?thesis .
  next
    case False
    then have n: "n_labels = 1" using n1 by simp
    have zero: "list_all (list_all (\<lambda>l. l = 0)) labels"
      by (rule list_all_mono2 [OF range]) (simp add: n)
    have "map (map ?keep) labels = map (map (\<lambda>v. v)) ?proc"
      by (rule map_map_rel [OF bg zero]) simp
    then have "map (map ?keep) labels = ?proc" by simp
    moreover have "postprocess morph_close connected_components img = Inr ?proc"
      using False cc by (simp add: postprocess_def)
    ultimately show ?thesis by simp
  qed
qed


text \<open>
  Claim C3. For every mask, the result of post-processing has 1 exactly at the pixels of
  the foreground components of the closed mask that have at least 100 pixels, and 0
  everywhere else: every retained component has at least 100 pixels and every smaller one
  is zeroed. A closed mask with a single foreground component of 99 pixels comes out as
  zeros; with a single component of 100 pixels the component is kept.
\<close>

theorem small_components_removed:
  assumes cc: "connected_components (morph_close img) = (n_labels, labels, stats)"
      and contract: "labelling_contract (morph_close img) (n_labels, labels, stats)"
  shows "postprocess morph_close connected_components img =
           Inr (map (map (\<lambda>l. if 1 \<le> l \<and> 100 \<le> label_count labels l then 1 else 0)) labels) \<and>
         (n_labels = 2 \<and> label_count labels 1 = 99 \<longrightarrow>
            postprocess morph_close connected_components img = Inr (zeros_like (morph_close img))) \<and>
         (n_labels = 2 \<and> label_count labels 1 = 100 \<longrightarrow>
            postprocess morph_close connected_components img =
              Inr (map (map (\<lambda>v. if v = 0 then 0 else 1)) (morph_close img)))"
proof -
  let ?proc = "morph_close img"
  let ?keep = "\<lambda>l. if 1 \<le> l \<and> 100 \<le> label_count labels l then (1::8 word) else 0"
  have res: "postprocess morph_close connected_components img = Inr (map (map ?keep) labels)"
    by (rule postprocess_result) (fact cc, fact contract)
  from contract have shape: "map length labels = map length ?proc"
    and range: "list_all (list_all (\<lambda>l. 0 \<le> l \<and> l < n_labels)) labels"
    and bg: "list_all2 (list_all2 (\<lambda>l v. l = 0 \<longleftrightarrow> v = 0)) labels ?proc"
    by (simp_all add: labelling_contract_def)
  have small: "map (map ?keep) labels = zeros_like ?proc"
    if "n_labels = 2" and "label_count labels 1 = 99"
  proof -
    have "?keep l = 0" if "0 \<le> l \<and> l < n_labels" for l
    proof (cases "l = 1")
      case True
      then show ?thesis using \<open>label_count labels 1 = 99\<close> by simp
    next
      case False
      then show ?thesis using that \<open>n_labels = 2\<close> by simp
    qed
    then have "list_all (list_all (\<lambda>l. ?keep l = (\<lambda>_. 0) l)) labels"
      by (intro list_all_mono2 [OF range]) simp
    then have "map (map ?keep) labels = map (map (\<lambda>_. 0)) labels"
      by (rule map_map_cong_all)
    then show ?thesis
      using map_const_same_shape [OF shape, of "0::8 word"] by (simp add: zeros_like_def)
  qed
  have big: "map (map ?keep) labels = map (map (\<lambda>v. if v = 0 then 0 else 1)) ?proc"
    if "n_labels = 2" and "label_count labels 1 = 100"
  proof -
    have "?keep l = (if l = 0 then 0 else 1)" if "0 \<le> l \<and> l < n_labels" for l
    proof (cases "l = 1")
      case True
      then show ?thesis using \<open>label_count labels 1 = 100\<close> by simp
    next
      case False
      then show ?thesis using that \<open>n_labels = 2\<close> by simp
    qed
    then have "list_all (list_all (\<lambda>l. ?keep l = (if l = 0 then 0 else 1))) labels"
      by (intro list_all_mono2 [OF range]) simp
    then have "map (map ?keep) labels = map (map (\<lambda>l. if l = 0 then 0 else 1)) labels"
      by (rule map_map_cong_all)
    also have "\<dots> = map (map (\<lambda>v. if v = 0 then 0 else 1)) ?proc"
      by (rule map_map_rel [OF bg range]) simp
    finally show ?thesis .
  qed
  show ?thesis using res small big by simp
qed


theorem small_components_removed_witness:
  "labelling_contract (closing (replicate 9 (replicate 11 1)))
     (label_foreground (closing (replicate 9 (replicate 11 1)))) \<and>
   postprocess closing label_foreground (replicate 9 (replicate 11 1)) =
     Inr (replicate 9 (replicate 11 0)) \<and>
   labelling_contract (closing (replicate 10 (replicate 10 1)))
     (label_foreground (closing (replicate 10 (replicate 10 1)))) \<and>
   postprocess closing label_foreground (replicate 10 (replicate 10 1)) =
     Inr (replicate 10 (replicate 10 1))"
proof -
  let ?a = "replicate 9 (replicate 11 (1::8 word))"
  let ?la = "replicate 9 (replicate 11 (1::int))"
  let ?b = "replicate 10 (replicate 10 (1::8 word))"
  let ?lb = "replicate 10 (replicate 10 (1::int))"
  have ca: "closing ?a = ?a" by code_simp
  have cb: "closing ?b = ?b" by code_simp
  have la: "label_foreground (closing ?a) = (2, ?la, [0, 99])" unfolding ca by code_simp
  have lb: "label_foreground (closing ?b) = (2, ?lb, [0, 100])" unfolding cb by code_simp
  have ha: "labelling_contract (closing ?a) (2, ?la, [0, 99])" unfolding ca by code_simp
  have hb: "labelling_contract (closing ?b) (2, ?lb, [0, 100])" unfolding cb by code_simp
  have na: "label_count ?la 1 = 99" by code_simp
  have nb: "label_count ?lb 1 = 100" by code_simp
  have za: "zeros_like (closing ?a) = replicate 9 (replicate 11 0)" unfolding ca by code_simp
  have zb: "map (map (\<lambda>v. if v = 0 then 0 else 1)) (closing ?b) = ?b" unfolding cb by code_simp
  from small_components_removed [of label_foreground closing ?a, OF la ha] na za
  have "postprocess closing label_foreground ?a = Inr (replicate 9 (replicate 11 0))"
    by simp
  moreover
  from small_components_removed [of label_foreground closing ?b, OF lb hb] nb zb
  have "postprocess closing label_foreground ?b = Inr ?b"
    by simp
  ultimately show ?thesis using ha hb la lb by simp
qed

lemma contract_area:
  assumes "labelling_contract img (n_labels, labels, stats)" and "1 \<le> l" and "l < n_labels"
  shows "tl stats ! nat (l - 1) = int (label_count labels l)"
proof -
  from assms(1) have len: "int (length stats) = n_labels"
    and area: "list_all (\<lambda>l. stats ! l = int (label_count labels (int l))) [0 ..< length stats]"
    by (simp_all add: labelling_contract_def)
  have nl: "nat l < length stats" and "nat (l - 1) < length (tl stats)"
    using assms(2,3) len by simp_all
  then have "tl stats ! nat (l - 1) = stats ! nat l"
    using assms(2) by (simp add: nth_tl Suc_nat_eq_nat_zadd1)
  also have "\<dots> = int (label_count labels l)"
    using area nl assms(2) by (simp add: list_all_iff)
  finally show ?thesis .
qed

text \<open>
  The pixel counts above are those of the closed mask. Closing can add pixels: a block of
  10 by 10 pixels with one pixel missing inside has 99 foreground pixels, its closed mask
  has 100, and the block is kept.
\<close>

lemma closing_fills_hole:
  "label_foreground ((replicate 10 (replicate 10 1)) [4 := (replicate 10 1) [4 := 0]]) =
     (2, (replicate 10 (replicate 10 1)) [4 := (replicate 10 1) [4 := 0]], [1, 99]) \<and>
   closing ((replicate 10 (replicate 10 1)) [4 := (replicate 10 1) [4 := 0]]) =
     replicate 10 (replicate 10 1) \<and>
   postprocess closing label_foreground
       ((replicate 10 (replicate 10 1)) [4 := (replicate 10 1) [4 := 0]]) =
     Inr (replicate 10 (replicate 10 1))"
  by code_simp

text \<open>
  Claim C8. On a binary mask that is already closed and whose foreground components all
  have at least 100 pixels, post-processing returns the mask itself, so that applying it
  twice gives the same mask as applying it once.
\<close>

theorem postprocess_idempotent:
  assumes closed: "morph_close img = img"
      and bin: "binary_image img"
      and cc: "connected_components img = (n_labels, labels, stats)"
      and contract: "labelling_contract img (n_labels, labels, stats)"
      and big: "list_all (\<lambda>a. 100 \<le> a) (tl stats)"
  shows "postprocess morph_close connected_components img = Inr img \<and>
         postprocess_twice morph_close connected_components img =
           postprocess morph_close connected_components img"
proof -
  let ?keep = "\<lambda>l. if 1 \<le> l \<and> 100 \<le> label_count labels l then (1::8 word) else 0"
  from contract have range: "list_all (list_all (\<lambda>l. 0 \<le> l \<and> l < n_labels)) labels"
    and bg: "list_all2 (list_all2 (\<lambda>l v. l = 0 \<longleftrightarrow> v = 0)) labels img"
    and len: "int (length stats) = n_labels"
    by (simp_all add: labelling_contract_def)
  have res: "postprocess morph_close connected_components img = Inr (map (map ?keep) labels)"
  proof (rule postprocess_result)
    show "connected_components (morph_close img) = (n_labels, labels, stats)"
      using cc closed by simp
    show "labelling_contract (morph_close img) (n_labels, labels, stats)"
      using contract closed by simp
  qed
  have keep: "?keep l = (if v = 0 then 0 else 1)"
    if "l = 0 \<longleftrightarrow> v = 0" and "0 \<le> l \<and> l < n_labels" for l and v :: "8 word"
  proof (cases "l = 0")
    case True
    then show ?thesis using that by simp
  next
    case False
    then have l: "1 \<le> l" "l < n_labels" using that by simp_all
    then have "nat (l - 1) < length (tl stats)" using len by simp
    then have "100 \<le> tl stats ! nat (l - 1)" using big by (simp add: list_all_length)
    then have "100 \<le> label_count labels l" using contract_area [OF contract l] by simp
    then show ?thesis using that l by simp
  qed
  have "map (map ?keep) labels = map (map (\<lambda>v. if v = 0 then 0 else 1)) img"
    by (rule map_map_rel [OF bg range]) (rule keep)
  also have "\<dots> = map (map (\<lambda>v. v)) img"
    by (rule map_map_cong_all, rule list_all_mono2 [OF bin [unfolded binary_image_def]]) auto
  finally have once: "postprocess morph_close connected_components img = Inr img"
    using res by simp
  then show ?thesis by (simp add: postprocess_twice_def)
qed

theorem postprocess_idempotent_witness:
  "closing (replicate 10 (replicate 10 1)) = replicate 10 (replicate 10 1) \<and>
   binary_image (replicate 10 (replicate 10 1)) \<and>
   labelling_contract (replicate 10 (replicate 10 1))
     (label_foreground (replicate 10 (replicate 10 1))) \<and>
   label_foreground (replicate 10 (replicate 10 1)) = (2, replicate 10 (replicate 10 1), [0, 100]) \<and>
   postprocess_twice closing label_foreground (replicate 10 (replicate 10 1)) =
     Inr (replicate 10 (replicate 10 1))"
proof -
  let ?b = "replicate 10 (replicate 10 (1::8 word))"
  let ?lb = "replicate 10 (replicate 10 (1::int))"
  have cb: "closing ?b = ?b" by code_simp
  have bb: "binary_image ?b" by code_simp
  have lb: "label_foreground ?b = (2, ?lb, [0, 100])" by code_simp
  have hb: "labelling_contract ?b (2, ?lb, [0, 100])" by code_simp
  have big: "list_all (\<lambda>a. 100 \<le> a) (tl [0, 100 :: int])" by simp
  from postprocess_idempotent [of closing ?b label_foreground, OF cb bb lb hb big]
  show ?thesis using cb bb lb hb by simp
qed

text \<open>
  Claim C10. When the closed mask has at least one foreground component and every
  foreground component has fewer than 100 pixels, the result of post-processing is the
  mask of zeros.
\<close>

theorem small_components_give_zero_mask:
  assumes cc: "connected_components (morph_close img) = (n_labels, labels, stats)"
      and contract: "labelling_contract (morph_close img) (n_labels, labels, stats)"
      and fg: "n_labels > 1"
      and small: "list_all (\<lambda>a. a < 100) (tl stats)"
  shows "postprocess morph_close connected_components img = Inr (zeros_like (morph_close img))"
proof -
  from contract have "int (length stats) = n_labels"
    by (simp add: labelling_contract_def)
  then have "nat (n_labels - 1) \<le> length (tl stats)" by simp
  then show ?thesis
    using cc fg small by (simp add: postprocess_def size_filter_loop_small)
qed

theorem small_components_give_zero_mask_witness:
  "label_foreground (closing [[1, 0, 1]]) = (2, [[1, 1, 1]], [0, 3]) \<and>
   labelling_contract (closing [[1, 0, 1]]) (2, [[1, 1, 1]], [0, 3]) \<and>
   postprocess closing label_foreground [[1, 0, 1]] = Inr [[0, 0, 0]]"
proof -
  have c: "closing [[1, 0, 1]] = [[1, 1, 1]]" by code_simp
  have l: "label_foreground (closing [[1, 0, 1]]) = (2, [[1, 1, 1]], [0, 3])"
    unfolding c by code_simp
  have h: "labelling_contract (closing [[1, 0, 1]]) (2, [[1, 1, 1]], [0, 3])"
    unfolding c by code_simp
  have fg: "(2::int) > 1" by simp
  have small: "list_all (\<lambda>a. a < 100) (tl [0, 3 :: int])" by simp
  have z: "zeros_like (closing [[1, 0, 1]]) = [[0, 0, 0]]" unfolding c by code_simp
  from small_components_give_zero_mask [of label_foreground closing "[[1, 0, 1]]", OF l h fg small]
  show ?thesis using l h z by simp
qed

section \<open>Scores\<close>

lemma intersection_sum:
  "binary a \<Longrightarrow> binary b \<Longrightarrow> np_sum (map2 (\<lambda>x y. x * y) a b) = intersection_count a b"
proof (induction a arbitrary: b)
  case Nil
  then show ?case by (simp add: np_sum_def intersection_count_def)
next
  case (Cons x a)
  show ?case
  proof (cases b)
    case Nil
    then show ?thesis by (simp add: np_sum_def intersection_count_def)
  next
    case (Cons y b')
    then have "binary a" "binary b'" "x = 0 \<or> x = 1" "y = 0 \<or> y = 1"
      using Cons.prems by (simp_all add: binary_def)
    then show ?thesis
      using Cons.IH [of b'] Cons by (auto simp: np_sum_def intersection_count_def)
  qed
qed

lemma intersection_le_true: "intersection_count a b \<le> np_sum a"
proof (induction a arbitrary: b)
  case Nil
  then show ?case by (simp add: np_sum_def intersection_count_def)
next
  case (Cons x a)
  show ?case
  proof (cases b)
    case Nil
    then show ?thesis by (simp add: np_sum_def intersection_count_def)
  next
    case (Cons y b')
    then show ?thesis
      using Cons.IH [of b'] by (auto simp: np_sum_def intersection_count_def)
  qed
qed

lemma intersection_le_pred: "intersection_count a b \<le> np_sum b"
proof (induction a arbitrary: b)
  case Nil
  then show ?case by (simp add: np_sum_def intersection_count_def)
next
  case (Cons x a)
  show ?case
  proof (cases b)
    case Nil
    then show ?thesis by (simp add: np_sum_def intersection_count_def)
  next
    case (Cons y b')
    then show ?thesis
      using Cons.IH [of b'] by (auto simp: np_sum_def intersection_count_def)
  qed
qed

text \<open>
  Claim C6. For binary arrays of the same shape the Dice score is computed, equals twice
  the number of positions where both arrays hold 1, divided by the sum of the true pixels
  plus the sum of the predicted pixels plus 1e-6, and lies in the closed interval [0,1].
\<close>

theorem dice_score_range:
  assumes "binary y_true" and "binary y_pred" and "length y_true = length y_pred"
  shows "\<exists>d. dice_score y_true y_pred = Inr d \<and>
             d = 2 * real (intersection_count y_true y_pred)
                  / (real (np_sum y_true) + real (np_sum y_pred) + 1 / 1000000) \<and>
             0 \<le> d \<and> d \<le> 1"
proof -
  let ?i = "intersection_count y_true y_pred"
  let ?den = "real (np_sum y_true) + real (np_sum y_pred) + 1 / 1000000"
  have val: "dice_score y_true y_pred = Inr (2 * real ?i / ?den)"
    using assms by (simp add: dice_score_def broadcast2_def intersection_sum)
  have pos: "0 < ?den" by (simp add: add_nonneg_pos)
  have "2 * ?i \<le> np_sum y_true + np_sum y_pred"
    using intersection_le_true [of y_true y_pred] intersection_le_pred [of y_true y_pred]
    by linarith
  then have "2 * real ?i \<le> real (np_sum y_true) + real (np_sum y_pred)"
    by (metis of_nat_add of_nat_le_iff of_nat_mult of_nat_numeral)
  then have "2 * real ?i \<le> ?den" by simp
  then have le: "2 * real ?i / ?den \<le> 1" using pos by (simp add: divide_le_eq)
  have ge: "0 \<le> 2 * real ?i / ?den" using pos by simp
  show ?thesis using val le ge by blast
qed

theorem dice_score_range_witness:
  "binary [0, 1, 1, 0] \<and> binary [0, 1, 0, 0] \<and>
   dice_score [0, 1, 1, 0] [0, 1, 0, 0] = Inr (2000000 / 3000001)"
proof -
  have a: "binary [0, 1, 1, 0]" and b: "binary [0, 1, 0, 0]" by (simp_all add: binary_def)
  have l: "length [0, 1, 1, 0 :: 8 word] = length [0, 1, 0, 0 :: 8 word]" by simp
  have v: "dice_score [0, 1, 1, 0] [0, 1, 0, 0] = Inr (2000000 / 3000001)"
    by (simp add: dice_score_def broadcast2_def np_sum_def)
  from dice_score_range [OF a b l] show ?thesis using a b v by simp
qed

lemma length_concat_table:
  "length (concat (map (\<lambda>a. map (g a) ys) xs)) = length xs * length ys"
  by (induction xs) simp_all

lemma square_four:
  assumes "(n::nat) * n = 4"
  shows "n = 2"
proof -
  have "\<not> n < 2"
  proof
    assume "n < 2"
    then have "n = 0 \<or> n = 1" by auto
    with assms show False by auto
  qed
  moreover have "\<not> 2 < n"
  proof
    assume "2 < n"
    then have "3 * 3 \<le> n * n" by (intro mult_le_mono) simp_all
    with assms show False by simp
  qed
  ultimately show ?thesis by simp
qed

lemma four_counts_partition:
  assumes "a \<noteq> b" and "list_all (\<lambda>(x, y). (x = a \<or> x = b) \<and> (y = a \<or> y = b)) zs"
  shows "length (filter (\<lambda>p. p = (a, a)) zs) + length (filter (\<lambda>p. p = (a, b)) zs)
           + length (filter (\<lambda>p. p = (b, a)) zs) + length (filter (\<lambda>p. p = (b, b)) zs)
         = length zs"
  using assms(2)
proof (induction zs)
  case Nil
  then show ?case by simp
next
  case (Cons z zs)
  obtain x y where z: "z = (x, y)" by (cases z)
  with Cons.prems have "(x = a \<or> x = b) \<and> (y = a \<or> y = b)" by simp
  then show ?case using Cons assms(1) z by auto
qed

lemma set_unique_labels: "set (unique_labels y_true y_pred) = set y_true \<union> set y_pred"
  by (simp add: unique_labels_def)

lemma confusion_counts_two_labels:
  assumes "confusion_counts y_true y_pred = Inr (tn, fp, fn, tp)"
  shows "\<exists>a b. unique_labels y_true y_pred = [a, b] \<and> a \<noteq> b \<and>
           length y_true = length y_pred \<and>
           tn = pair_count y_true y_pred a a \<and> fp = pair_count y_true y_pred a b \<and>
           fn = pair_count y_true y_pred b a \<and> tp = pair_count y_true y_pred b b"
proof -
  let ?ls = "unique_labels y_true y_pred"
  let ?m = "map (\<lambda>a. map (\<lambda>b. pair_count y_true y_pred a b) ?ls) ?ls"
  from assms have len: "length y_true = length y_pred"
    by (auto simp: confusion_counts_def confusion_matrix_def split: if_splits)
  with assms have flat: "concat ?m = [tn, fp, fn, tp]"
    by (auto simp: confusion_counts_def confusion_matrix_def Let_def split: list.splits)
  have "length (concat ?m) = length ?ls * length ?ls" by (rule length_concat_table)
  with flat have "length ?ls * length ?ls = 4" by simp
  then have "length ?ls = 2" by (rule square_four)
  then obtain a b where ls: "?ls = [a, b]"
    by (auto simp: length_Suc_conv numeral_2_eq_2)
  have "distinct ?ls" by (simp add: unique_labels_def)
  then have ab: "a \<noteq> b" using ls by simp
  show ?thesis using flat ls ab len by auto
qed


lemma zip_labels:
  assumes "set y_true \<union> set y_pred = {a, b}"
  shows "list_all (\<lambda>(x, y). (x = a \<or> x = b) \<and> (y = a \<or> y = b)) (zip y_true y_pred)"
proof -
  have "(x = a \<or> x = b) \<and> (y = a \<or> y = b)" if "(x, y) \<in> set (zip y_true y_pred)" for x y
  proof -
    from that have "x \<in> set y_true" and "y \<in> set y_pred"
      by (auto dest: set_zip_leftD set_zip_rightD)
    then show ?thesis using assms by blast
  qed
  then show ?thesis by (auto simp: list_all_iff)
qed

lemma binary_unique_labels:
  assumes "binary y_true" and "binary y_pred"
      and "0 \<in> set (y_true @ y_pred)" and "1 \<in> set (y_true @ y_pred)"
  shows "unique_labels y_true y_pred = [0, 1]"
proof -
  have "set (y_true @ y_pred) \<subseteq> {0, 1}"
    using assms(1,2) by (auto simp: binary_def list_all_iff)
  then have "set (unique_labels y_true y_pred) = set [0, 1 :: 8 word]"
    using assms(3,4) by (auto simp: unique_labels_def)
  moreover have "sorted (unique_labels y_true y_pred)" "distinct (unique_labels y_true y_pred)"
    by (simp_all add: unique_labels_def)
  moreover have "sorted [0, 1 :: 8 word]" "distinct [0, 1 :: 8 word]" by simp_all
  ultimately show ?thesis by (metis sorted_distinct_set_unique)
qed

text \<open>
  Claim C7. Whenever the four counts are obtained from the confusion matrix, they add up
  to the number of pixels of the flattened batch. They are obtained whenever the arrays
  are binary, of the same length, and both labels occur in them.
\<close>

theorem confusion_counts_total:
  "(confusion_counts y_true y_pred = Inr (tn, fp, fn, tp) \<longrightarrow>
      tn + fp + fn + tp = length y_true) \<and>
   (binary y_true \<and> binary y_pred \<and> length y_true = length y_pred \<and>
    0 \<in> set (y_true @ y_pred) \<and> 1 \<in> set (y_true @ y_pred) \<longrightarrow>
      confusion_counts y_true y_pred =
        Inr (pair_count y_true y_pred 0 0, pair_count y_true y_pred 0 1,
             pair_count y_true y_pred 1 0, pair_count y_true y_pred 1 1))"
proof (intro conjI impI)
  assume "confusion_counts y_true y_pred = Inr (tn, fp, fn, tp)"
  then obtain a b where ls: "unique_labels y_true y_pred = [a, b]" and ab: "a \<noteq> b"
    and len: "length y_true = length y_pred"
    and c: "tn = pair_count y_true y_pred a a" "fp = pair_count y_true y_pred a b"
           "fn = pair_count y_true y_pred b a" "tp = pair_count y_true y_pred b b"
    using confusion_counts_two_labels by blast
  have "set y_true \<union> set y_pred = {a, b}"
    using set_unique_labels [of y_true y_pred] ls by simp
  then have "list_all (\<lambda>(x, y). (x = a \<or> x = b) \<and> (y = a \<or> y = b)) (zip y_true y_pred)"
    by (rule zip_labels)
  from four_counts_partition [OF ab this] show "tn + fp + fn + tp = length y_true"
    using c len by (simp add: pair_count_def)
next
  assume h: "binary y_true \<and> binary y_pred \<and> length y_true = length y_pred \<and>
    0 \<in> set (y_true @ y_pred) \<and> 1 \<in> set (y_true @ y_pred)"
  then have "unique_labels y_true y_pred = [0, 1]" by (simp add: binary_unique_labels)
  then show "confusion_counts y_true y_pred =
        Inr (pair_count y_true y_pred 0 0, pair_count y_true y_pred 0 1,
             pair_count y_true y_pred 1 0, pair_count y_true y_pred 1 1)"
    using h by (simp add: confusion_counts_def confusion_matrix_def)
qed

theorem confusion_counts_total_witness:
  "confusion_counts [0, 0, 1, 1] [0, 1, 1, 1] = Inr (1, 1, 0, 2) \<and>
   (1::nat) + 1 + 0 + 2 = length [0, 0, 1, 1 :: 8 word] \<and>
   binary [0, 0, 1, 1] \<and> binary [0, 1, 1, 1]"
proof -
  have v: "confusion_counts [0, 0, 1, 1] [0, 1, 1, 1] = Inr (1, 1, 0, 2)"
    by (simp add: confusion_counts_def confusion_matrix_def unique_labels_def pair_count_def)
  have b: "binary [0, 0, 1, 1]" "binary [0, 1, 1, 1]" by (simp_all add: binary_def)
  from confusion_counts_total [of "[0, 0, 1, 1]" "[0, 1, 1, 1]" 1 1 0 2] v b
  show ?thesis by simp
qed

text \<open>
  When a single label occurs in both arrays the matrix has one entry and the unpacking into
  four counts raises.
\<close>

lemma single_label_unpack_fails: "confusion_counts [0, 0] [0, 0] = Inl ValueError"
  by (simp add: confusion_counts_def confusion_matrix_def unique_labels_def pair_count_def)




end
